theory Spec2Isabelle
  imports Complex_Main
begin

section \<open>The trigger handshake of the live SSB reconstruction notebook\<close>

text \<open>
  The notebook \<^verbatim>\<open>examples/ssb-live-reconstruction.ipynb\<close> arms a Merlin detector over a
  control connection, hands a \<^verbatim>\<open>trigger\<close> callback to the LiberTEM-live acquisition and
  waits for the outcome of the triggered scan when the acquisition is over. The embedding
  below follows the code cells: every Python function becomes a function on an explicit
  state, every exception a value, and everything the notebook does to the outside world
  (printing, sleeping, talking to the detector, submitting work to the thread pool) is
  appended to a list of events in the order in which it happens.
\<close>

subsection \<open>Values, exceptions and events\<close>

text \<open>
  \<^verbatim>\<open>ValueError\<close> is what Python raises when \<^verbatim>\<open>height, width = aq.shape.nav\<close> is given
  anything but two values. Every other exception comes from the libraries the notebook
  calls (\<^verbatim>\<open>MerlinControl\<close>, \<^verbatim>\<open>LiveContext.run_udf\<close>) and is carried by its text.
\<close>

datatype error = ValueError | External string

text \<open>A statement either runs to its end (returning \<^verbatim>\<open>None\<close>) or raises.\<close>

datatype outcome = Returned | Raised error

text \<open>
  The values sent with \<^verbatim>\<open>c.set(key, value)\<close>. No floating-point arithmetic is modelled:
  a float is carried as the number it denotes.
\<close>

datatype pyval = IntV int | FloatV real | StrV string

datatype message = SetMsg string pyval | CmdMsg string

type_synonym handle = nat

datatype event =
    Print string
  | Sleep nat
  | Connect
  | Send message
  | Close
  | Submit handle
  | Frames

subsection \<open>The acquisition descriptor\<close>

text \<open>
  Of the acquisition object returned by \<^verbatim>\<open>ctx.prepare_acquisition\<close> the notebook reads
  \<^verbatim>\<open>aq.shape.nav\<close> and \<^verbatim>\<open>aq.shape.sig\<close>, both sequences of integers.
\<close>

record shape =
  nav :: "int list"
  sig :: "int list"

record acquisition =
  shape :: shape

subsection \<open>AcquisitionState\<close>

text \<open>
  \<^verbatim>\<open>
  class AcquisitionState:
      def __init__(self):
          self.trigger_result = None

      def set_trigger_result(self, result):
          self.trigger_result = result
  \<close>
  The attribute holds any Python value; \<^verbatim>\<open>None\<close> is \<open>None\<close>.
\<close>

record 'h AcquisitionState =
  trigger_result :: "'h option"

definition AcquisitionState_init :: "'h AcquisitionState" where
  "AcquisitionState_init = \<lparr>trigger_result = None\<rparr>"

definition set_trigger_result :: "'h AcquisitionState \<Rightarrow> 'h option \<Rightarrow> 'h AcquisitionState" where
  "set_trigger_result self result = self\<lparr>trigger_result := result\<rparr>"

subsection \<open>The outside world\<close>

text \<open>
  \<open>io\<close> is what a function running on the pool's thread can reach: the global control
  object \<^verbatim>\<open>c\<close> (connected or not) and the outside world, as the events so far.
\<close>

record io =
  is_open :: bool
  events :: "event list"

text \<open>
  How the libraries behave is not decided by the notebook, so it is a parameter: whether
  connecting raises, whether sending a message raises, whether the acquisition raises
  before it calls the trigger callback or while it collects frames (each may depend on
  everything that has happened so far), and how many queued work items the pool's thread
  completes while the frames are collected.
\<close>

record env =
  connect_raises :: "event list \<Rightarrow> error option"
  send_raises :: "event list \<Rightarrow> message \<Rightarrow> error option"
  runner_before :: "event list \<Rightarrow> error option"
  runner_frames :: "event list \<Rightarrow> error option"
  worker_turns :: nat

type_synonym task = "io \<Rightarrow> outcome \<times> io"

text \<open>
  The globals of the notebook: \<^verbatim>\<open>c\<close> and the outside world (the \<open>io\<close> part),
  \<^verbatim>\<open>acquisition_state\<close>, and \<^verbatim>\<open>pool = concurrent.futures.ThreadPoolExecutor(1)\<close>: one
  worker thread that takes the submitted work items in the order of submission. A future
  is the handle of its work item; it is done once \<open>finished\<close> holds its outcome.
\<close>

record world = io +
  acquisition_state :: "handle AcquisitionState"
  work_queue :: "(handle \<times> task) list"
  finished :: "handle \<rightharpoonup> outcome"
  next_handle :: handle

subsection \<open>Statements\<close>

text \<open>Statements one after the other: the first exception ends the block.\<close>

fun block :: "('s \<Rightarrow> outcome \<times> 's) list \<Rightarrow> 's \<Rightarrow> outcome \<times> 's" where
  "block [] s = (Returned, s)"
| "block (f # fs) s =
     (case f s of
        (Returned, s') \<Rightarrow> block fs s'
      | (Raised e, s') \<Rightarrow> (Raised e, s'))"

definition py_print :: "string \<Rightarrow> 'a io_scheme \<Rightarrow> outcome \<times> 'a io_scheme" where
  "py_print txt s = (Returned, s\<lparr>events := events s @ [Print txt]\<rparr>)"

definition time_sleep :: "nat \<Rightarrow> 'a io_scheme \<Rightarrow> outcome \<times> 'a io_scheme" where
  "time_sleep secs s = (Returned, s\<lparr>events := events s @ [Sleep secs]\<rparr>)"

subsection \<open>MerlinControl\<close>

text \<open>
  Modelled from the spec: the class \<^verbatim>\<open>MerlinControl\<close>, which the notebook imports from
  LiberTEM-live. The connection is "opened on scoped entry, commands sent while open,
  closed on scoped exit"; opening fails "if unreachable", and \<^verbatim>\<open>set\<close> and \<^verbatim>\<open>cmd\<close>
  "send a command and fail" on a malformed response or a transport failure. Whether a
  call fails is the environment's choice.
\<close>

definition MerlinControl_enter :: "env \<Rightarrow> 'a io_scheme \<Rightarrow> outcome \<times> 'a io_scheme" where
  "MerlinControl_enter E s =
     (case connect_raises E (events s) of
        Some e \<Rightarrow> (Raised e, s)
      | None \<Rightarrow> (Returned, s\<lparr>is_open := True, events := events s @ [Connect]\<rparr>))"

definition MerlinControl_exit :: "'a io_scheme \<Rightarrow> 'a io_scheme" where
  "MerlinControl_exit s = s\<lparr>is_open := False, events := events s @ [Close]\<rparr>"

definition MerlinControl_send :: "env \<Rightarrow> message \<Rightarrow> 'a io_scheme \<Rightarrow> outcome \<times> 'a io_scheme" where
  "MerlinControl_send E m s =
     (case send_raises E (events s) m of
        Some e \<Rightarrow> (Raised e, s)
      | None \<Rightarrow> (Returned, s\<lparr>events := events s @ [Send m]\<rparr>))"

definition MerlinControl_set :: "env \<Rightarrow> string \<Rightarrow> pyval \<Rightarrow> 'a io_scheme \<Rightarrow> outcome \<times> 'a io_scheme" where
  "MerlinControl_set E key v = MerlinControl_send E (SetMsg key v)"

definition MerlinControl_cmd :: "env \<Rightarrow> string \<Rightarrow> 'a io_scheme \<Rightarrow> outcome \<times> 'a io_scheme" where
  "MerlinControl_cmd E name = MerlinControl_send E (CmdMsg name)"

text \<open>
  \<^verbatim>\<open>with c: body\<close>. When entering raises, the body and the exit do not run. Otherwise the
  exit runs when the body is left, whether it returned or raised, and the body's exception
  propagates.
\<close>

definition with_c :: "env \<Rightarrow> ('a io_scheme \<Rightarrow> outcome \<times> 'a io_scheme) \<Rightarrow> 'a io_scheme \<Rightarrow> outcome \<times> 'a io_scheme" where
  "with_c E body s =
     (case MerlinControl_enter E s of
        (Raised e, s1) \<Rightarrow> (Raised e, s1)
      | (Returned, s1) \<Rightarrow> (case body s1 of (r, s2) \<Rightarrow> (r, MerlinControl_exit s2)))"

subsection \<open>Camera setup\<close>

definition py_pass :: "'s \<Rightarrow> outcome \<times> 's" where
  "py_pass s = (Returned, s)"

text \<open>
  \<^verbatim>\<open>merlin_setup(c, dwell_time=1e-3, depth=6, save_path=None)\<close>. The second argument
  here is the value of \<^verbatim>\<open>dwell_time * 1e3\<close>, the time in milliseconds that is sent.
\<close>

definition merlin_setup :: "env \<Rightarrow> pyval \<Rightarrow> int \<Rightarrow> string option \<Rightarrow> 'a io_scheme \<Rightarrow> outcome \<times> 'a io_scheme" where
  "merlin_setup E acquisition_time depth save_path =
     block [
       py_print ''Setting Merlin acquisition parameters'',
       MerlinControl_set E ''CONTINUOUSRW'' (IntV 1),
       MerlinControl_set E ''ACQUISITIONTIME'' acquisition_time,
       MerlinControl_set E ''COUNTERDEPTH'' (IntV depth),
       MerlinControl_set E ''TRIGGERSTART'' (IntV 5),
       MerlinControl_set E ''RUNHEADLESS'' (IntV 1),
       MerlinControl_set E ''FILEFORMAT'' (IntV 2),
       (case save_path of
          Some path \<Rightarrow>
            block [
              MerlinControl_set E ''IMAGESPERFILE'' (IntV 256),
              MerlinControl_set E ''FILEENABLE'' (IntV 1),
              MerlinControl_set E ''USETIMESTAMPING'' (IntV 0),
              MerlinControl_set E ''FILEFORMAT'' (IntV 2),
              MerlinControl_set E ''FILEDIRECTORY'' (StrV path)]
        | None \<Rightarrow> MerlinControl_set E ''FILEENABLE'' (IntV 0)),
       py_print ''Finished Merlin setup.'']"

definition microscope_setup :: "'a io_scheme \<Rightarrow> outcome \<times> 'a io_scheme" where
  "microscope_setup = py_pass"

definition arm :: "env \<Rightarrow> 'a io_scheme \<Rightarrow> outcome \<times> 'a io_scheme" where
  "arm E =
     block [
       py_print ''Arming Merlin...'',
       MerlinControl_cmd E ''STARTACQUISITION'',
       py_print ''Merlin ready for trigger.'']"

text \<open>
  \<^verbatim>\<open>height, width = aq.shape.nav\<close> raises \<^verbatim>\<open>ValueError\<close> unless the navigation shape
  has exactly two entries.
\<close>

definition set_nav :: "env \<Rightarrow> acquisition \<Rightarrow> 'a io_scheme \<Rightarrow> outcome \<times> 'a io_scheme" where
  "set_nav E aq s =
     (case nav (shape aq) of
        [height, width] \<Rightarrow>
          block [
            py_print ''Setting resolution...'',
            MerlinControl_set E ''NUMFRAMESTOACQUIRE'' (IntV (height * width)),
            MerlinControl_set E ''NUMFRAMESPERTRIGGER'' (IntV (height * width))] s
      | _ \<Rightarrow> (Raised ValueError, s))"

subsection \<open>The thread pool\<close>

text \<open>
  Modelled from the spec: \<^verbatim>\<open>concurrent.futures.ThreadPoolExecutor\<close> and its futures, which
  belong to Python's standard library. "Exactly one background worker thread services
  trigger actions (a single-slot worker pool)", an action submitted before an earlier one
  has completed "queues behind it", submitting gives "a future-like handle immediately",
  and an exception of the action "is captured by the future-like handle and only surfaced
  when the owner explicitly retrieves the result".

  \<^verbatim>\<open>pool.submit(fn)\<close> appends the work item to the queue and returns its future at once.
\<close>

definition submit :: "task \<Rightarrow> world \<Rightarrow> handle \<times> world" where
  "submit fn w =
     (let fut = next_handle w
      in (fut, w\<lparr>events := events w @ [Submit fut],
                  work_queue := work_queue w @ [(fut, fn)],
                  next_handle := Suc fut\<rparr>))"

definition io_of :: "world \<Rightarrow> io" where
  "io_of w = \<lparr>is_open = is_open w, events = events w\<rparr>"

text \<open>
  One turn of the pool's only worker thread: it takes the oldest work item, runs it to its
  end and stores the outcome in the item's future. An exception of the work item is stored,
  not propagated: the turn has a world as its result and no outcome of its own.
\<close>

definition worker_step :: "world \<Rightarrow> world" where
  "worker_step w =
     (case work_queue w of
        [] \<Rightarrow> w
      | (fut, fn) # rest \<Rightarrow>
          (case fn (io_of w) of
             (r, s) \<Rightarrow> w\<lparr>is_open := is_open s, events := events s,
                          work_queue := rest, finished := (finished w)(fut \<mapsto> r)\<rparr>))"

text \<open>
  \<^verbatim>\<open>fut.result()\<close> blocks the caller until the future is done, that is, until the worker
  has completed its work item, and then returns or re-raises the stored outcome. \<open>None\<close>
  is a call that never returns: the future is not done and the queue is empty.
\<close>

function fut_result :: "handle \<Rightarrow> world \<Rightarrow> (outcome \<times> world) option" where
  "fut_result fut w =
     (case finished w fut of
        Some r \<Rightarrow> Some (r, w)
      | None \<Rightarrow> (if work_queue w = [] then None else fut_result fut (worker_step w)))"
  by pat_completeness auto
termination
  by (relation "measure (\<lambda>(fut, w). length (work_queue w))")
     (auto simp: worker_step_def split: list.splits prod.splits)

declare fut_result.simps [simp del]

subsection \<open>The trigger function\<close>

text \<open>
  \<^verbatim>\<open>
  def do_scan():
      print("do_scan()")
      with c:
          c.cmd('SOFTTRIGGER')
  \<close>
\<close>

definition do_scan :: "env \<Rightarrow> task" where
  "do_scan E = block [py_print ''do_scan()'', with_c E (MerlinControl_cmd E ''SOFTTRIGGER'')]"

text \<open>
  \<^verbatim>\<open>
  def trigger(aq):
      print("Triggering!")
      time.sleep(1)
      height, width = aq.shape.nav
      def do_scan(): ...
      fut = pool.submit(do_scan)
      acquisition_state.set_trigger_result(fut)
  \<close>
\<close>

definition trigger :: "env \<Rightarrow> acquisition \<Rightarrow> world \<Rightarrow> outcome \<times> world" where
  "trigger E aq =
     block [
       py_print ''Triggering!'',
       time_sleep 1,
       (\<lambda>w. case nav (shape aq) of
               [height, width] \<Rightarrow>
                 (case submit (do_scan E) w of
                    (fut, w') \<Rightarrow>
                      (Returned,
                       w'\<lparr>acquisition_state :=
                            set_trigger_result (acquisition_state w') (Some fut)\<rparr>))
             | _ \<Rightarrow> (Raised ValueError, w))]"

subsection \<open>Running the acquisition\<close>

text \<open>
  Modelled from the spec: \<^verbatim>\<open>ctx.run_udf\<close>, which belongs to LiberTEM-live. "The runner
  calls \<^verbatim>\<open>trigger(descriptor)\<close> once per session before starting frame collection". It
  may raise before the call or while it collects, as the environment chooses, and an
  exception of the callback propagates. While the frames arrive, the pool's worker runs on
  its own thread and completes as many queued work items as the environment says.
\<close>

definition run_udf :: "env \<Rightarrow> acquisition \<Rightarrow> world \<Rightarrow> outcome \<times> world" where
  "run_udf E aq w =
     (case runner_before E (events w) of
        Some e \<Rightarrow> (Raised e, w)
      | None \<Rightarrow>
          (case trigger E aq w of
             (Raised e, w1) \<Rightarrow> (Raised e, w1)
           | (Returned, w1) \<Rightarrow>
               (let w2 = (worker_step ^^ worker_turns E) w1
                in case runner_frames E (events w2) of
                     Some e \<Rightarrow> (Raised e, w2)
                   | None \<Rightarrow> (Returned, w2\<lparr>events := events w2 @ [Frames]\<rparr>))))"

text \<open>
  \<^verbatim>\<open>try: body finally: handler\<close>, for statements that may block for ever (\<open>None\<close>). The
  handler runs however the body was left; an exception of the handler replaces the body's.
\<close>

definition try_finally ::
  "('s \<Rightarrow> (outcome \<times> 's) option) \<Rightarrow> ('s \<Rightarrow> (outcome \<times> 's) option) \<Rightarrow> 's \<Rightarrow> (outcome \<times> 's) option" where
  "try_finally body handler s =
     (case body s of
        None \<Rightarrow> None
      | Some (r, s1) \<Rightarrow>
          (case handler s1 of
             None \<Rightarrow> None
           | Some (Raised e, s2) \<Rightarrow> Some (Raised e, s2)
           | Some (Returned, s2) \<Rightarrow> Some (r, s2)))"

text \<open>
  \<^verbatim>\<open>
  if acquisition_state.trigger_result is not None:
      print("Waiting for blocking scan function...")
      print(f"result = {acquisition_state.trigger_result.result()}")
  \<close>
  The work items of this notebook return \<^verbatim>\<open>None\<close>, which is what is printed.
\<close>

definition await_trigger :: "world \<Rightarrow> (outcome \<times> world) option" where
  "await_trigger w =
     (case trigger_result (acquisition_state w) of
        None \<Rightarrow> Some (Returned, w)
      | Some fut \<Rightarrow>
          (case fut_result fut (snd (py_print ''Waiting for blocking scan function...'' w)) of
             None \<Rightarrow> None
           | Some (Raised e, w') \<Rightarrow> Some (Raised e, w')
           | Some (Returned, w') \<Rightarrow> Some (py_print ''result = None'' w')))"

text \<open>The \<^verbatim>\<open>finally\<close> part of the last cell: the inner \<^verbatim>\<open>try\<close> with its empty handler.\<close>

definition teardown :: "world \<Rightarrow> (outcome \<times> world) option" where
  "teardown = try_finally await_trigger (\<lambda>w. Some (py_pass w))"

text \<open>
  The last cell up to the acquisition: a new, unconnected control object is bound to
  \<^verbatim>\<open>c\<close>, and the detector is set up and armed inside \<^verbatim>\<open>with c:\<close>. \<^verbatim>\<open>merlin_setup(c)\<close>
  takes its defaults; \<^verbatim>\<open>1e-3 * 1e3\<close> is \<^verbatim>\<open>1.0\<close>.
\<close>

definition setup_scope :: "env \<Rightarrow> acquisition \<Rightarrow> 'a io_scheme \<Rightarrow> outcome \<times> 'a io_scheme" where
  "setup_scope E aq =
     with_c E (block [merlin_setup E (FloatV 1) 6 None, microscope_setup, set_nav E aq, arm E])"

definition connect_and_arm :: "env \<Rightarrow> acquisition \<Rightarrow> 'a io_scheme \<Rightarrow> outcome \<times> 'a io_scheme" where
  "connect_and_arm E aq =
     block [
       (\<lambda>s. (Returned, s\<lparr>is_open := False\<rparr>)),
       py_print ''Connecting Merlin control...'',
       setup_scope E aq]"

text \<open>
  \<^verbatim>\<open>
  try:
      ctx.run_udf(dataset=aq, udf=[ssb_udf, com_udf], plots=plots)
  finally:
      try:
          if acquisition_state.trigger_result is not None: ...
      finally:
          pass
  \<close>
\<close>

definition acquire :: "env \<Rightarrow> acquisition \<Rightarrow> world \<Rightarrow> (outcome \<times> world) option" where
  "acquire E aq = try_finally (\<lambda>w. Some (run_udf E aq w)) teardown"

definition run_cell :: "env \<Rightarrow> acquisition \<Rightarrow> world \<Rightarrow> (outcome \<times> world) option" where
  "run_cell E aq w =
     (case connect_and_arm E aq w of
        (Raised e, w1) \<Rightarrow> Some (Raised e, w1)
      | (Returned, w1) \<Rightarrow>
          (case acquire E aq w1 of
             None \<Rightarrow> None
           | Some (Raised e, w2) \<Rightarrow> Some (Raised e, w2)
           | Some (Returned, w2) \<Rightarrow> Some (py_print ''Finished.'' w2)))"

text \<open>
  The state after the cells that define the globals have run:
  \<^verbatim>\<open>acquisition_state = AcquisitionState()\<close> and an idle pool.
\<close>

definition initial_world :: world where
  "initial_world =
     \<lparr>is_open = False, events = [],
      acquisition_state = AcquisitionState_init,
      work_queue = [], finished = Map.empty, next_handle = 0\<rparr>"

subsection \<open>Futures held by the acquisition state\<close>

text \<open>
  A future is known to the pool when it is done or its work item is still queued; such a
  future becomes done once the worker gets to it. Every future that \<^verbatim>\<open>pool.submit\<close> has
  returned is known.
\<close>

definition known :: "world \<Rightarrow> handle \<Rightarrow> bool" where
  "known w fut = (finished w fut \<noteq> None \<or> fut \<in> fst ` set (work_queue w))"

definition handle_known :: "world \<Rightarrow> bool" where
  "handle_known w =
     (case trigger_result (acquisition_state w) of None \<Rightarrow> True | Some fut \<Rightarrow> known w fut)"

subsection \<open>Example sessions\<close>

text \<open>An environment in which no library call raises and the worker is slow to start.\<close>

definition quiet_env :: env where
  "quiet_env =
     \<lparr>connect_raises = (\<lambda>tr. None), send_raises = (\<lambda>tr m. None),
      runner_before = (\<lambda>tr. None), runner_frames = (\<lambda>tr. None), worker_turns = 0\<rparr>"

text \<open>The detector rejects the software trigger.\<close>

definition failing_scan_env :: env where
  "failing_scan_env =
     quiet_env\<lparr>send_raises :=
       (\<lambda>tr m. if m = CmdMsg ''SOFTTRIGGER'' then Some (External ''boom'') else None)\<rparr>"

text \<open>The acquisition fails while it collects frames; the worker has run by then.\<close>

definition lost_frames_env :: env where
  "lost_frames_env =
     quiet_env\<lparr>runner_frames := (\<lambda>tr. Some (External ''frames lost'')), worker_turns := 1\<rparr>"

text \<open>The software trigger is rejected and the acquisition loses frames as well.\<close>

definition failing_scan_lost_frames_env :: env where
  "failing_scan_lost_frames_env =
     failing_scan_env\<lparr>runner_frames := (\<lambda>tr. Some (External ''frames lost''))\<rparr>"


text \<open>Arming the detector fails inside the setup scope.\<close>

definition arm_fails_env :: env where
  "arm_fails_env =
     quiet_env\<lparr>send_raises :=
       (\<lambda>tr m. if m = CmdMsg ''STARTACQUISITION'' then Some (External ''timeout'') else None)\<rparr>"

text \<open>The notebook's own session: \<^verbatim>\<open>SCAN_SIZE = (128, 128)\<close>.\<close>

definition scan_128 :: acquisition where
  "scan_128 = \<lparr>shape = \<lparr>nav = [128, 128], sig = [256, 256]\<rparr>\<rparr>"

definition scan_64_by_32 :: acquisition where
  "scan_64_by_32 = \<lparr>shape = \<lparr>nav = [64, 32], sig = [512, 512]\<rparr>\<rparr>"

text \<open>A one-dimensional scan: \<^verbatim>\<open>scan_size=(128,)\<close>.\<close>

definition line_scan :: acquisition where
  "line_scan = \<lparr>shape = \<lparr>nav = [128], sig = [256, 256]\<rparr>\<rparr>"

definition closed_io :: io where
  "closed_io = \<lparr>is_open = False, events = []\<rparr>"



subsection \<open>The pool between sessions\<close>

text \<open>
  The pool is settled when nothing is queued and no future that is still to be handed out
  is done. It is draining when at most the work item of the stored handle is queued.
\<close>

definition pool_settled :: "world \<Rightarrow> bool" where
  "pool_settled w =
     (work_queue w = [] \<and> (\<forall>h. next_handle w \<le> h \<longrightarrow> finished w h = None))"

definition pool_draining :: "world \<Rightarrow> bool" where
  "pool_draining w =
     ((\<forall>h. next_handle w \<le> h \<longrightarrow> finished w h = None)
      \<and> (work_queue w = []
          \<or> (\<exists>fut fn. work_queue w = [(fut, fn)]
                \<and> trigger_result (acquisition_state w) = Some fut
                \<and> finished w fut = None \<and> fut < next_handle w)))"

section \<open>Properties\<close>

subsection \<open>AcquisitionState\<close>

text \<open>
  C8: a freshly created AcquisitionState, on which \<^verbatim>\<open>set_trigger_result\<close> was never
  called, holds no trigger result: reading it gives \<^verbatim>\<open>None\<close>.
\<close>

theorem fresh_state_has_no_result:
  "trigger_result (AcquisitionState_init :: 'h AcquisitionState) = None"
  by (simp add: AcquisitionState_init_def)

text \<open>
  C3: after any non-empty sequence of \<^verbatim>\<open>set_trigger_result\<close> calls, whatever the state was
  before, the stored trigger result is the argument of the last call. The method is total:
  no call raises, a later call overwrites an earlier one.
\<close>

theorem last_set_trigger_result_wins:
  "rs \<noteq> [] \<Longrightarrow> trigger_result (foldl set_trigger_result self rs) = last rs"
proof (induction rs arbitrary: self)
  case Nil
  then show ?case by simp
next
  case (Cons r rs)
  show ?case
  proof (cases rs)
    case Nil
    then show ?thesis by (simp add: set_trigger_result_def)
  next
    case (Cons r' rs')
    then have "rs \<noteq> []" by simp
    from Cons.IH [OF this] show ?thesis using \<open>rs \<noteq> []\<close> by simp
  qed
qed

theorem last_set_trigger_result_wins_witness:
  "[Some (3::nat), Some 7] \<noteq> []
   \<and> trigger_result (foldl set_trigger_result AcquisitionState_init [Some (3::nat), Some 7]) = Some 7"
  using last_set_trigger_result_wins [of "[Some (3::nat), Some 7]" AcquisitionState_init]
  by simp

subsection \<open>What trigger and do\_scan do\<close>

lemmas stmt_defs = py_print_def time_sleep_def py_pass_def MerlinControl_enter_def
  MerlinControl_exit_def MerlinControl_send_def MerlinControl_set_def MerlinControl_cmd_def

lemma unpack_two: "length xs = 2 \<Longrightarrow> \<exists>a b. xs = [a, b]"
  by (cases xs; cases "tl xs") auto

lemma trigger_two:
  assumes "length (nav (shape aq)) = 2"
  shows "trigger E aq w =
    (Returned,
     w\<lparr>events := events w @ [Print ''Triggering!'', Sleep 1, Submit (next_handle w)],
       work_queue := work_queue w @ [(next_handle w, do_scan E)],
       next_handle := Suc (next_handle w),
       acquisition_state := set_trigger_result (acquisition_state w) (Some (next_handle w))\<rparr>)"
proof -
  from unpack_two [OF assms] obtain a b where "nav (shape aq) = [a, b]" by blast
  then show ?thesis
    by (simp add: trigger_def submit_def Let_def py_print_def time_sleep_def)
qed

lemma trigger_not_two:
  assumes "length (nav (shape aq)) \<noteq> 2"
  shows "trigger E aq w =
    (Raised ValueError, w\<lparr>events := events w @ [Print ''Triggering!'', Sleep 1]\<rparr>)"
  using assms
  by (auto simp add: trigger_def py_print_def time_sleep_def split: list.splits)

lemma do_scan_events:
  "events (snd (do_scan E s)) = events s @
     (case connect_raises E (events s @ [Print ''do_scan()'']) of
        Some e \<Rightarrow> [Print ''do_scan()'']
      | None \<Rightarrow>
         (case send_raises E (events s @ [Print ''do_scan()'', Connect]) (CmdMsg ''SOFTTRIGGER'') of
            Some e \<Rightarrow> [Print ''do_scan()'', Connect, Close]
          | None \<Rightarrow> [Print ''do_scan()'', Connect, Send (CmdMsg ''SOFTTRIGGER''), Close]))"
  by (simp add: do_scan_def with_c_def stmt_defs split: option.splits)

lemma do_scan_outcome:
  "fst (do_scan E s) =
     (case connect_raises E (events s @ [Print ''do_scan()'']) of
        Some e \<Rightarrow> Raised e
      | None \<Rightarrow>
         (case send_raises E (events s @ [Print ''do_scan()'', Connect]) (CmdMsg ''SOFTTRIGGER'') of
            Some e \<Rightarrow> Raised e
          | None \<Rightarrow> Returned))"
  by (simp add: do_scan_def with_c_def stmt_defs split: option.splits)

text \<open>
  C1, as amended: for every acquisition descriptor whose navigation shape has exactly two
  entries, and whatever the libraries do, \<^verbatim>\<open>trigger\<close> returns normally with the action
  \<^verbatim>\<open>do_scan\<close> appended to the pool's queue and its future stored in the acquisition
  state. It returns without waiting: no future has changed, the control connection is
  untouched, and all that has happened outside is the print, the settle delay of one
  second and the submission; nothing of the submitted action has run. None of this
  depends on how long the action takes or on how it ends.
\<close>

theorem trigger_returns_with_action_queued:
  assumes "length (nav (shape aq)) = 2"
  shows "fst (trigger E aq w) = Returned
    \<and> trigger_result (acquisition_state (snd (trigger E aq w))) = Some (next_handle w)
    \<and> work_queue (snd (trigger E aq w)) = work_queue w @ [(next_handle w, do_scan E)]
    \<and> finished (snd (trigger E aq w)) = finished w
    \<and> is_open (snd (trigger E aq w)) = is_open w
    \<and> events (snd (trigger E aq w))
        = events w @ [Print ''Triggering!'', Sleep 1, Submit (next_handle w)]"
  by (simp add: trigger_two [OF assms] set_trigger_result_def)

theorem trigger_returns_with_action_queued_witness:
  "length (nav (shape scan_128)) = 2
   \<and> fst (trigger failing_scan_env scan_128 initial_world) = Returned
   \<and> trigger_result (acquisition_state (snd (trigger failing_scan_env scan_128 initial_world))) = Some 0
   \<and> finished (snd (trigger failing_scan_env scan_128 initial_world)) 0 = None"
  using trigger_returns_with_action_queued [of scan_128 failing_scan_env initial_world]
  by (simp add: scan_128_def initial_world_def)

text \<open>
  C1 as stated, for every acquisition descriptor, fails: for a scan with a navigation shape
  of one entry the unpacking \<^verbatim>\<open>height, width = aq.shape.nav\<close> raises \<^verbatim>\<open>ValueError\<close> before
  anything is submitted, and no future is stored.
\<close>

theorem trigger_rejects_line_scan:
  "fst (trigger quiet_env line_scan initial_world) = Raised ValueError
   \<and> work_queue (snd (trigger quiet_env line_scan initial_world)) = []
   \<and> trigger_result (acquisition_state (snd (trigger quiet_env line_scan initial_world))) = None"
  by (simp add: trigger_def line_scan_def initial_world_def AcquisitionState_init_def
      py_print_def time_sleep_def)

text \<open>
  C7: for a navigation shape of two entries, the action that \<^verbatim>\<open>trigger\<close> hands to the pool
  is \<^verbatim>\<open>do_scan\<close>, and the submission gives a future at once: it is stored while the
  future's state is what it was before the call. Whenever it runs, \<^verbatim>\<open>do_scan\<close> prints,
  opens the control scope and sends the one command \<^verbatim>\<open>SOFTTRIGGER\<close>; the scope is
  skipped when connecting raises, and closed without the command having gone out when
  sending raises.
\<close>

theorem submitted_action_is_soft_trigger:
  assumes "length (nav (shape aq)) = 2"
  shows "work_queue (snd (trigger E aq w)) = work_queue w @ [(next_handle w, do_scan E)]
    \<and> trigger_result (acquisition_state (snd (trigger E aq w))) = Some (next_handle w)
    \<and> finished (snd (trigger E aq w)) (next_handle w) = finished w (next_handle w)
    \<and> events (snd (do_scan E s)) = events s @
        (case connect_raises E (events s @ [Print ''do_scan()'']) of
           Some e \<Rightarrow> [Print ''do_scan()'']
         | None \<Rightarrow>
            (case send_raises E (events s @ [Print ''do_scan()'', Connect]) (CmdMsg ''SOFTTRIGGER'') of
               Some e \<Rightarrow> [Print ''do_scan()'', Connect, Close]
             | None \<Rightarrow> [Print ''do_scan()'', Connect, Send (CmdMsg ''SOFTTRIGGER''), Close]))"
  by (simp add: trigger_two [OF assms] set_trigger_result_def do_scan_events)

theorem submitted_action_is_soft_trigger_witness:
  "length (nav (shape scan_128)) = 2
   \<and> work_queue (snd (trigger quiet_env scan_128 initial_world)) = [(0, do_scan quiet_env)]
   \<and> events (snd (do_scan quiet_env closed_io))
       = [Print ''do_scan()'', Connect, Send (CmdMsg ''SOFTTRIGGER''), Close]"
  using submitted_action_is_soft_trigger [of scan_128 quiet_env initial_world closed_io]
  by (simp add: scan_128_def initial_world_def quiet_env_def closed_io_def)

text \<open>
  C10: for two acquisition descriptors whose navigation shapes have exactly two entries
  each, \<^verbatim>\<open>trigger\<close> does the same from the same state, and what it does is this: it
  returns normally after the print, the settle delay of one second and the submission, in
  this order, and the action it has queued is \<^verbatim>\<open>do_scan\<close>, which takes nothing from the
  descriptor and whose only command is \<^verbatim>\<open>SOFTTRIGGER\<close>, sent once inside the control
  scope. What the descriptors hold does not matter.
\<close>

theorem trigger_ignores_descriptor_contents:
  assumes "length (nav (shape aq1)) = 2" and "length (nav (shape aq2)) = 2"
  shows "trigger E aq1 w = trigger E aq2 w
    \<and> fst (trigger E aq1 w) = Returned
    \<and> events (snd (trigger E aq1 w))
        = events w @ [Print ''Triggering!'', Sleep 1, Submit (next_handle w)]
    \<and> work_queue (snd (trigger E aq1 w)) = work_queue w @ [(next_handle w, do_scan E)]
    \<and> events (snd (do_scan E s)) = events s @
        (case connect_raises E (events s @ [Print ''do_scan()'']) of
           Some e \<Rightarrow> [Print ''do_scan()'']
         | None \<Rightarrow>
            (case send_raises E (events s @ [Print ''do_scan()'', Connect]) (CmdMsg ''SOFTTRIGGER'') of
               Some e \<Rightarrow> [Print ''do_scan()'', Connect, Close]
             | None \<Rightarrow> [Print ''do_scan()'', Connect, Send (CmdMsg ''SOFTTRIGGER''), Close]))"
  by (simp add: trigger_two [OF assms(1)] trigger_two [OF assms(2)] do_scan_events)

theorem trigger_ignores_descriptor_contents_witness:
  "length (nav (shape scan_128)) = 2 \<and> length (nav (shape scan_64_by_32)) = 2
   \<and> scan_128 \<noteq> scan_64_by_32
   \<and> trigger quiet_env scan_128 initial_world = trigger quiet_env scan_64_by_32 initial_world
   \<and> events (snd (trigger quiet_env scan_128 initial_world))
       = [Print ''Triggering!'', Sleep 1, Submit 0]
   \<and> work_queue (snd (trigger quiet_env scan_128 initial_world)) = [(0, do_scan quiet_env)]
   \<and> events (snd (do_scan quiet_env closed_io))
       = [Print ''do_scan()'', Connect, Send (CmdMsg ''SOFTTRIGGER''), Close]"
proof -
  have two: "length (nav (shape scan_128)) = 2" "length (nav (shape scan_64_by_32)) = 2"
    and differ: "scan_128 \<noteq> scan_64_by_32"
    by (simp_all add: scan_128_def scan_64_by_32_def)
  have start: "events initial_world = []" "next_handle initial_world = 0"
    "work_queue initial_world = []" "events closed_io = []"
    by (simp_all add: initial_world_def closed_io_def)
  have quiet: "connect_raises quiet_env tr = None" "send_raises quiet_env tr m = None" for tr m
    by (simp_all add: quiet_env_def)
  from trigger_ignores_descriptor_contents
    [OF two, of quiet_env initial_world closed_io]
  show ?thesis using two differ by (auto simp add: start quiet)
qed

subsection \<open>The control scope\<close>

lemma with_c_closed: "\<not> is_open s \<Longrightarrow> \<not> is_open (snd (with_c E body s))"
  by (simp add: with_c_def stmt_defs split: option.splits prod.splits outcome.splits)

lemma with_c_ends_with_close:
  "connect_raises E (events s) = None \<Longrightarrow> \<exists>evs. events (snd (with_c E body s)) = evs @ [Close]"
  by (simp add: with_c_def stmt_defs split: prod.splits)

lemma do_scan_closed:
  assumes "\<not> is_open s"
  shows "\<not> is_open (snd (do_scan E s))"
proof -
  let ?s1 = "s\<lparr>events := events s @ [Print ''do_scan()'']\<rparr>"
  have "\<not> is_open ?s1" using assms by simp
  then have "\<not> is_open (snd (with_c E (MerlinControl_cmd E ''SOFTTRIGGER'') ?s1))"
    by (rule with_c_closed)
  then show ?thesis
    by (auto simp add: do_scan_def py_print_def split: prod.splits outcome.splits)
qed

lemma setup_scope_closed: "\<not> is_open s \<Longrightarrow> \<not> is_open (snd (setup_scope E aq s))"
  by (simp add: setup_scope_def with_c_closed)

text \<open>
  C5: a control scope that is entered with the connection closed leaves it closed, however
  the scope is left: the body returned, a command in it raised, or connecting itself
  raised. This holds for any body, so for the setup and arm scope of the last cell and for
  the scope inside \<^verbatim>\<open>do_scan\<close>; and when connecting succeeded, closing is the last thing
  the scope does.
\<close>

theorem control_channel_released:
  assumes "\<not> is_open s"
  shows "\<not> is_open (snd (with_c E body s))
    \<and> \<not> is_open (snd (setup_scope E aq s))
    \<and> \<not> is_open (snd (do_scan E s))
    \<and> (connect_raises E (events s) = None
         \<longrightarrow> (\<exists>evs. events (snd (with_c E body s)) = evs @ [Close]))"
  using assms
  by (simp add: with_c_closed setup_scope_closed do_scan_closed with_c_ends_with_close)

theorem control_channel_released_witness:
  "\<not> is_open closed_io
   \<and> fst (setup_scope arm_fails_env scan_128 closed_io) = Raised (External ''timeout'')
   \<and> \<not> is_open (snd (setup_scope arm_fails_env scan_128 closed_io))
   \<and> fst (do_scan failing_scan_env closed_io) = Raised (External ''boom'')
   \<and> \<not> is_open (snd (do_scan failing_scan_env closed_io))"
  using control_channel_released
    [of closed_io arm_fails_env "MerlinControl_cmd arm_fails_env ''STARTACQUISITION''"
        scan_128]
    control_channel_released
    [of closed_io failing_scan_env "MerlinControl_cmd failing_scan_env ''SOFTTRIGGER''"
        scan_128]
  by (simp add: closed_io_def arm_fails_env_def failing_scan_env_def quiet_env_def scan_128_def
      setup_scope_def with_c_def merlin_setup_def microscope_setup_def set_nav_def arm_def
      do_scan_outcome stmt_defs)

subsection \<open>The worker and the futures\<close>

lemma worker_step_state [simp]: "acquisition_state (worker_step w) = acquisition_state w"
  by (simp add: worker_step_def split: list.splits prod.splits)

lemma worker_steps_state [simp]: "acquisition_state ((worker_step ^^ k) w) = acquisition_state w"
  by (induction k) simp_all

lemma worker_step_known: "known w fut \<Longrightarrow> known (worker_step w) fut"
  by (auto simp: known_def worker_step_def split: list.splits prod.splits)

lemma worker_steps_known: "known w fut \<Longrightarrow> known ((worker_step ^^ k) w) fut"
  by (induction k) (simp_all add: worker_step_known)

lemma worker_step_idle: "work_queue w = [] \<Longrightarrow> worker_step w = w"
  by (simp add: worker_step_def)

lemma worker_steps_idle: "work_queue w = [] \<Longrightarrow> (worker_step ^^ k) w = w"
  by (induction k) (simp_all add: worker_step_idle)

lemma worker_step_single:
  "work_queue w = [(fut, fn)] \<Longrightarrow>
   worker_step w =
     w\<lparr>is_open := is_open (snd (fn (io_of w))), events := events (snd (fn (io_of w))),
       work_queue := [], finished := (finished w)(fut \<mapsto> fst (fn (io_of w)))\<rparr>"
  by (simp add: worker_step_def split: prod.splits)

lemma worker_steps_single:
  assumes "work_queue w = [(fut, fn)]"
  shows "(worker_step ^^ k) w = (if k = 0 then w else worker_step w)"
proof (cases k)
  case 0
  then show ?thesis by simp
next
  case (Suc j)
  have "work_queue (worker_step w) = []"
    by (simp add: worker_step_single [OF assms])
  then have "(worker_step ^^ j) (worker_step w) = worker_step w"
    by (rule worker_steps_idle)
  then show ?thesis using Suc by (simp add: funpow_swap1)
qed

lemma fut_result_done: "finished w fut = Some r \<Longrightarrow> fut_result fut w = Some (r, w)"
  by (simp add: fut_result.simps)

text \<open>Waiting for a known future ends, and gives the outcome that the future holds.\<close>

lemma fut_result_known:
  "known w fut \<Longrightarrow>
   \<exists>r w'. fut_result fut w = Some (r, w') \<and> finished w' fut = Some r
           \<and> acquisition_state w' = acquisition_state w"
proof (induction fut w rule: fut_result.induct)
  case (1 fut w)
  show ?case
  proof (cases "finished w fut")
    case (Some r)
    then show ?thesis by (simp add: fut_result_done)
  next
    case None
    with "1.prems" have ne: "work_queue w \<noteq> []" by (auto simp: known_def)
    from "1.prems" have "known (worker_step w) fut" by (rule worker_step_known)
    from "1.IH" [OF None ne this] obtain r w' where
      "fut_result fut (worker_step w) = Some (r, w')" "finished w' fut = Some r"
      "acquisition_state w' = acquisition_state (worker_step w)" by blast
    moreover have "fut_result fut w = fut_result fut (worker_step w)"
      using None ne by (subst fut_result.simps) simp
    ultimately show ?thesis by simp
  qed
qed

lemma fut_result_single:
  assumes "work_queue w = [(fut, fn)]" and "finished w fut = None"
  shows "fut_result fut w = Some (fst (fn (io_of w)), worker_step w)"
proof -
  have "fut_result fut w = fut_result fut (worker_step w)"
    using assms by (subst fut_result.simps) simp
  also have "\<dots> = Some (fst (fn (io_of w)), worker_step w)"
    by (rule fut_result_done) (simp add: worker_step_single [OF assms(1)])
  finally show ?thesis .
qed

subsection \<open>Teardown\<close>

lemma teardown_eq: "teardown w = await_trigger w"
  by (simp add: teardown_def try_finally_def py_pass_def
      split: option.splits prod.splits outcome.splits)


lemma await_trigger_present:
  assumes "trigger_result (acquisition_state w) = Some fut" and "known w fut"
  shows "\<exists>r w'. await_trigger w = Some (r, w') \<and> finished w' fut = Some r
            \<and> acquisition_state w' = acquisition_state w"
proof -
  let ?w = "snd (py_print ''Waiting for blocking scan function...'' w)"
  have "known ?w fut" using assms(2) by (simp add: known_def py_print_def)
  from fut_result_known [OF this] obtain r w' where
    r: "fut_result fut ?w = Some (r, w')" "finished w' fut = Some r"
       "acquisition_state w' = acquisition_state ?w" by blast
  show ?thesis
  proof (cases r)
    case Returned
    with r assms(1) show ?thesis
      by (simp add: await_trigger_def py_print_def)
  next
    case (Raised e)
    with r assms(1) show ?thesis
      by (simp add: await_trigger_def py_print_def)
  qed
qed

lemma await_failed_scan:
  assumes boom: "\<And>s. fst (do_scan E s) = Raised e"
    and stored: "trigger_result (acquisition_state w) = Some fut"
    and state: "finished w fut = Some (Raised e)
                \<or> finished w fut = None \<and> work_queue w = [(fut, do_scan E)]"
  shows "\<exists>w'. await_trigger w = Some (Raised e, w') \<and> finished w' fut = Some (Raised e)"
proof -
  let ?w = "snd (py_print ''Waiting for blocking scan function...'' w)"
  from state show ?thesis
  proof
    assume "finished w fut = Some (Raised e)"
    then have f: "finished ?w fut = Some (Raised e)" by (simp add: py_print_def)
    then have "fut_result fut ?w = Some (Raised e, ?w)" by (rule fut_result_done)
    then show ?thesis using stored f by (simp add: await_trigger_def)
  next
    assume a: "finished w fut = None \<and> work_queue w = [(fut, do_scan E)]"
    then have q: "work_queue ?w = [(fut, do_scan E)]" and n: "finished ?w fut = None"
      by (simp_all add: py_print_def)
    from fut_result_single [OF q n]
    have "fut_result fut ?w = Some (Raised e, worker_step ?w)"
      by (simp add: boom)
    moreover have "finished (worker_step ?w) fut = Some (Raised e)"
      by (simp add: worker_step_single [OF q] boom)
    ultimately show ?thesis using stored by (simp add: await_trigger_def)
  qed
qed

text \<open>
  C2: let the background action raise \<open>e\<close> whenever it runs (connecting fails, or the
  software trigger is rejected), in a session that starts with a settled pool and in which
  the acquisition gets to call \<^verbatim>\<open>trigger\<close> for a scan of two dimensions. Then
  \<^verbatim>\<open>trigger\<close> returns normally; \<^verbatim>\<open>ctx.run_udf\<close> ends as the frame collection alone
  decides, returning or raising the runner's own exception, whether the worker ran the
  action while the frames were collected or has not started it yet; and the
  \<^verbatim>\<open>try\<close>/\<^verbatim>\<open>finally\<close> of the last cell ends by raising \<open>e\<close> from the await of the stored
  handle, with \<open>e\<close> held by the future.
\<close>

theorem background_exception_surfaces_at_await:
  assumes two: "length (nav (shape aq)) = 2"
    and boom: "\<And>s. fst (do_scan E s) = Raised e"
    and called: "runner_before E (events w) = None"
    and idle: "work_queue w = []"
    and fresh: "finished w (next_handle w) = None"
  shows "fst (trigger E aq w) = Returned
    \<and> fst (run_udf E aq w) =
        (case runner_frames E
                (events ((worker_step ^^ worker_turns E) (snd (trigger E aq w)))) of
           None \<Rightarrow> Returned
         | Some x \<Rightarrow> Raised x)
    \<and> (\<exists>w'. acquire E aq w = Some (Raised e, w')
             \<and> finished w' (next_handle w) = Some (Raised e))"
proof -
  let ?fut = "next_handle w"
  let ?t = "snd (trigger E aq w)"
  let ?w2 = "(worker_step ^^ worker_turns E) ?t"
  let ?w3 = "snd (run_udf E aq w)"
  have q: "work_queue ?t = [(?fut, do_scan E)]" and f: "finished ?t ?fut = None"
    and s: "trigger_result (acquisition_state ?t) = Some ?fut"
    using idle fresh by (simp_all add: trigger_two [OF two] set_trigger_result_def)
  have t: "fst (trigger E aq w) = Returned" by (simp add: trigger_two [OF two])
  have w3: "?w3 = (case runner_frames E (events ?w2) of
                     None \<Rightarrow> ?w2\<lparr>events := events ?w2 @ [Frames]\<rparr> | Some x \<Rightarrow> ?w2)"
    by (simp add: run_udf_def called trigger_two [OF two] Let_def split: option.splits)
  have run: "fst (run_udf E aq w) =
      (case runner_frames E (events ?w2) of None \<Rightarrow> Returned | Some x \<Rightarrow> Raised x)"
    by (simp add: run_udf_def called trigger_two [OF two] Let_def split: option.splits)
  have state2: "finished ?w2 ?fut = Some (Raised e)
               \<or> finished ?w2 ?fut = None \<and> work_queue ?w2 = [(?fut, do_scan E)]"
  proof (cases "worker_turns E = 0")
    case True
    then show ?thesis using q f by simp
  next
    case False
    then have "?w2 = worker_step ?t" by (simp add: worker_steps_single [OF q])
    then show ?thesis
      by (simp add: worker_step_single [OF q] boom)
  qed
  have stored: "trigger_result (acquisition_state ?w3) = Some ?fut"
    using s by (simp add: w3 split: option.splits)
  have state: "finished ?w3 ?fut = Some (Raised e)
               \<or> finished ?w3 ?fut = None \<and> work_queue ?w3 = [(?fut, do_scan E)]"
    using state2 by (simp add: w3 split: option.splits)
  from await_failed_scan [OF boom stored state]
  obtain w' where a: "teardown ?w3 = Some (Raised e, w')" "finished w' ?fut = Some (Raised e)"
    by (auto simp: teardown_eq)
  have "acquire E aq w = Some (Raised e, w')"
    using a(1) by (cases "run_udf E aq w") (simp add: acquire_def try_finally_def)
  with t run a(2) show ?thesis by blast
qed

theorem background_exception_surfaces_at_await_witness:
  "fst (trigger failing_scan_lost_frames_env scan_128 initial_world) = Returned
   \<and> fst (run_udf failing_scan_lost_frames_env scan_128 initial_world)
       = Raised (External ''frames lost'')
   \<and> map_option fst (acquire failing_scan_lost_frames_env scan_128 initial_world)
       = Some (Raised (External ''boom''))"
  using background_exception_surfaces_at_await
    [of scan_128 failing_scan_lost_frames_env "External ''boom''" initial_world]
  by (auto simp add: scan_128_def failing_scan_lost_frames_env_def failing_scan_env_def
      quiet_env_def initial_world_def do_scan_outcome)

subsection \<open>The acquisition session\<close>

lemma run_udf_handle_known:
  assumes "handle_known w"
  shows "handle_known (snd (run_udf E aq w))"
proof (cases "runner_before E (events w)")
  case (Some e)
  then show ?thesis using assms by (simp add: run_udf_def)
next
  case None
  show ?thesis
  proof (cases "length (nav (shape aq)) = 2")
    case False
    then show ?thesis using assms None
      by (simp add: run_udf_def trigger_not_two handle_known_def known_def split: option.splits)
  next
    case True
    let ?w1 = "snd (trigger E aq w)"
    have k: "known ?w1 (next_handle w)"
      by (simp add: trigger_two [OF True] known_def)
    have t: "trigger_result (acquisition_state ?w1) = Some (next_handle w)"
      by (simp add: trigger_two [OF True] set_trigger_result_def)
    let ?w2 = "(worker_step ^^ worker_turns E) ?w1"
    have "known ?w2 (next_handle w)" using k by (rule worker_steps_known)
    moreover have "trigger_result (acquisition_state ?w2) = Some (next_handle w)"
      using t by simp
    ultimately have "handle_known ?w2" "handle_known (?w2\<lparr>events := events ?w2 @ [Frames]\<rparr>)"
      by (simp_all add: handle_known_def known_def)
    then show ?thesis using None
      by (simp add: run_udf_def trigger_two [OF True] Let_def split: option.splits)
  qed
qed








subsection \<open>The pool is idle when a session starts\<close>

lemma fut_result_idle:
  assumes "work_queue w = []" and "fut_result fut w = Some (r, w')"
  shows "w' = w"
  using assms by (subst (asm) fut_result.simps) (simp split: option.splits)

lemma pool_settled_start: "pool_settled initial_world"
  by (simp add: pool_settled_def initial_world_def)

lemma pool_settled_idle:
  "pool_settled w \<Longrightarrow> work_queue w = [] \<and> finished w (next_handle w) = None"
  by (simp add: pool_settled_def)

lemma pool_settled_events [simp]: "pool_settled (w\<lparr>events := evs\<rparr>) = pool_settled w"
  by (simp add: pool_settled_def)

lemma pool_draining_events [simp]: "pool_draining (w\<lparr>events := evs\<rparr>) = pool_draining w"
  by (simp add: pool_draining_def)

lemma pool_draining_step:
  assumes "pool_draining w"
  shows "pool_draining (worker_step w)"
proof (cases "work_queue w")
  case Nil
  then show ?thesis using assms by (simp add: worker_step_idle)
next
  case (Cons a rest)
  with assms obtain fut fn where q: "work_queue w = [(fut, fn)]" and lt: "fut < next_handle w"
    by (auto simp: pool_draining_def)
  from assms lt show ?thesis
    by (auto simp add: worker_step_single [OF q] pool_draining_def)
qed

lemma pool_draining_steps: "pool_draining w \<Longrightarrow> pool_draining ((worker_step ^^ k) w)"
  by (induction k) (simp_all add: pool_draining_step)

lemma run_udf_draining:
  assumes "pool_settled w"
  shows "pool_draining (snd (run_udf E aq w))"
proof (cases "length (nav (shape aq)) = 2 \<and> runner_before E (events w) = None")
  case False
  then have "snd (run_udf E aq w) = w
             \<or> snd (run_udf E aq w) = w\<lparr>events := events w @ [Print ''Triggering!'', Sleep 1]\<rparr>"
    by (auto simp add: run_udf_def trigger_not_two split: option.splits)
  moreover have "pool_draining w" using assms by (simp add: pool_settled_def pool_draining_def)
  ultimately show ?thesis by auto
next
  case True
  then have two: "length (nav (shape aq)) = 2" and called: "runner_before E (events w) = None"
    by simp_all
  let ?t = "snd (trigger E aq w)"
  let ?w2 = "(worker_step ^^ worker_turns E) ?t"
  have "pool_draining ?t"
    using assms
    by (simp add: trigger_two [OF two] set_trigger_result_def pool_settled_def pool_draining_def)
  then have d: "pool_draining ?w2" by (rule pool_draining_steps)
  have "snd (run_udf E aq w) = (case runner_frames E (events ?w2) of
                     None \<Rightarrow> ?w2\<lparr>events := events ?w2 @ [Frames]\<rparr> | Some x \<Rightarrow> ?w2)"
    by (simp add: run_udf_def called trigger_two [OF two] Let_def split: option.splits)
  with d show ?thesis by (simp split: option.splits)
qed

lemma await_trigger_settles:
  assumes "pool_draining w" and "await_trigger w = Some (r, w')"
  shows "pool_settled w'"
proof -
  let ?w = "snd (py_print ''Waiting for blocking scan function...'' w)"
  have d: "pool_draining ?w" using assms(1) by (simp add: py_print_def)
  show ?thesis
  proof (cases "trigger_result (acquisition_state w)")
    case None
    with assms have "w' = w" "work_queue w = []"
      by (auto simp: await_trigger_def pool_draining_def)
    with assms(1) show ?thesis by (simp add: pool_settled_def pool_draining_def)
  next
    case (Some h)
    from assms(2) Some obtain r' w'' where
      fr: "fut_result h ?w = Some (r', w'')"
      and w': "w' = w'' \<or> w' = w''\<lparr>events := events w'' @ [Print ''result = None'']\<rparr>"
      by (auto simp: await_trigger_def py_print_def split: option.splits outcome.splits)
    have "pool_settled w''"
    proof (cases "work_queue ?w")
      case Nil
      from fut_result_idle [OF Nil fr] d Nil show ?thesis
        by (simp add: pool_settled_def pool_draining_def)
    next
      case (Cons a rest)
      with d Some obtain fn where q: "work_queue ?w = [(h, fn)]"
        and nf: "finished ?w h = None" and lt: "h < next_handle ?w"
        by (auto simp: pool_draining_def py_print_def)
      from fut_result_single [OF q nf] fr have "w'' = worker_step ?w" by simp
      moreover have "pool_draining (worker_step ?w)" using d by (rule pool_draining_step)
      moreover have "work_queue (worker_step ?w) = []" by (simp add: worker_step_single [OF q])
      ultimately show ?thesis by (simp add: pool_settled_def pool_draining_def)
    qed
    with w' show ?thesis by auto
  qed
qed

lemma acquire_keeps_pool_settled:
  assumes "pool_settled w" and "acquire E aq w = Some (r, w')"
  shows "pool_settled w'"
proof -
  obtain r1 w1 where run: "run_udf E aq w = (r1, w1)" by (cases "run_udf E aq w")
  from assms(2) run obtain r2 where td: "await_trigger w1 = Some (r2, w')"
    by (auto simp: acquire_def try_finally_def teardown_eq split: option.splits outcome.splits)
  from run_udf_draining [OF assms(1), of E aq] run have "pool_draining w1" by simp
  then show ?thesis using td by (rule await_trigger_settles)
qed

lemma connect_and_arm_pool:
  "work_queue (snd (connect_and_arm E aq w)) = work_queue w
   \<and> finished (snd (connect_and_arm E aq w)) = finished w
   \<and> next_handle (snd (connect_and_arm E aq w)) = next_handle w"
  by (simp add: connect_and_arm_def setup_scope_def with_c_def merlin_setup_def
      microscope_setup_def set_nav_def arm_def stmt_defs
      split: option.splits list.splits)

text \<open>Every run of the last cell that ends leaves the pool idle, as it found it.\<close>

lemma run_cell_keeps_pool_settled:
  assumes "pool_settled w" and "run_cell E aq w = Some (r, w')"
  shows "pool_settled w'"
proof -
  obtain r0 w0 where arm: "connect_and_arm E aq w = (r0, w0)"
    by (cases "connect_and_arm E aq w")
  have w0: "pool_settled w0"
    using assms(1) connect_and_arm_pool [of E aq w] arm by (simp add: pool_settled_def)
  show ?thesis
  proof (cases r0)
    case (Raised e)
    with assms(2) arm w0 show ?thesis by (simp add: run_cell_def)
  next
    case Returned
    with assms(2) arm obtain r1 w1 where
      acq: "acquire E aq w0 = Some (r1, w1)"
      and w': "w' = w1 \<or> w' = w1\<lparr>events := events w1 @ [Print ''Finished.'']\<rparr>"
      by (auto simp: run_cell_def py_print_def split: option.splits outcome.splits)
    from acquire_keeps_pool_settled [OF w0 acq] w' show ?thesis by auto
  qed
qed

text \<open>
  C9: when the acquisition raises \<open>e\<close> and the acquisition state holds a handle, the
  \<^verbatim>\<open>finally\<close> part still waits for that handle before anything propagates: the wait
  ends, the future is done afterwards, and the exception that reaches the caller is the
  future's own if the background action raised, and \<open>e\<close> otherwise.
\<close>

theorem teardown_awaits_after_failed_acquisition:
  assumes "handle_known w"
    and "fst (run_udf E aq w) = Raised e"
    and "trigger_result (acquisition_state (snd (run_udf E aq w))) = Some fut"
  shows "\<exists>r w2. acquire E aq w = Some (Raised (case r of Raised x \<Rightarrow> x | Returned \<Rightarrow> e), w2)
                \<and> finished w2 fut = Some r"
proof -
  obtain w1 where w1: "run_udf E aq w = (Raised e, w1)"
    using assms(2) by (cases "run_udf E aq w") simp
  have "handle_known w1" using run_udf_handle_known [OF assms(1), of E aq] w1 by simp
  with assms(3) w1 have "known w1 fut" by (simp add: handle_known_def)
  from await_trigger_present [OF _ this] assms(3) w1 obtain r w2 where
    r: "await_trigger w1 = Some (r, w2)" "finished w2 fut = Some r" by auto
  have "acquire E aq w = Some (Raised (case r of Raised x \<Rightarrow> x | Returned \<Rightarrow> e), w2)"
    using w1 r(1) by (cases r) (simp_all add: acquire_def try_finally_def teardown_eq)
  with r(2) show ?thesis by blast
qed

theorem teardown_awaits_after_failed_acquisition_witness:
  "handle_known initial_world
   \<and> fst (run_udf lost_frames_env scan_128 initial_world) = Raised (External ''frames lost'')
   \<and> trigger_result (acquisition_state (snd (run_udf lost_frames_env scan_128 initial_world))) = Some 0
   \<and> (\<exists>r w2. acquire lost_frames_env scan_128 initial_world
              = Some (Raised (case r of Raised x \<Rightarrow> x | Returned \<Rightarrow> External ''frames lost''), w2)
            \<and> finished w2 0 = Some r)"
  using teardown_awaits_after_failed_acquisition
    [of initial_world lost_frames_env scan_128 "External ''frames lost''" 0]
  by (simp add: handle_known_def initial_world_def AcquisitionState_init_def lost_frames_env_def
      quiet_env_def scan_128_def run_udf_def trigger_def submit_def set_trigger_result_def
      py_print_def time_sleep_def)

subsection \<open>The recorded session\<close>

text \<open>
  The notebook was saved with the output of one run of its last cell. With no library
  call raising and the worker running the scan while the frames arrive, the model prints
  the same lines in the same order.
\<close>

lemma recorded_session:
  "map_option (\<lambda>(r, w). (r, [t. Print t \<leftarrow> events w]))
     (run_cell (quiet_env\<lparr>worker_turns := 1\<rparr>) scan_128 initial_world)
   = Some (Returned,
       [''Connecting Merlin control...'',
        ''Setting Merlin acquisition parameters'',
        ''Finished Merlin setup.'',
        ''Setting resolution...'',
        ''Arming Merlin...'',
        ''Merlin ready for trigger.'',
        ''Triggering!'',
        ''do_scan()'',
        ''Waiting for blocking scan function...'',
        ''result = None'',
        ''Finished.''])"
  by (simp add: run_cell_def connect_and_arm_def setup_scope_def with_c_def merlin_setup_def
      microscope_setup_def set_nav_def arm_def acquire_def try_finally_def teardown_def
      await_trigger_def run_udf_def trigger_def submit_def set_trigger_result_def
      worker_step_def io_of_def do_scan_def fut_result.simps
      quiet_env_def scan_128_def initial_world_def AcquisitionState_init_def stmt_defs)

end
